theory Spec2Isabelle
  imports Complex_Main
begin

section \<open>The Tic-Tac-Toe environment of \<^verbatim>\<open>src/environments/TicTacToeEnv.py\<close>\<close>

subsection \<open>Data\<close>

text \<open>
  The exceptions the methods of \<^verbatim>\<open>TicTacToeEnv\<close> can raise on an integer action both come
  from indexing the board: numpy's \<^verbatim>\<open>IndexError\<close>, and \<^verbatim>\<open>OverflowError\<close> for an index that
  only fits an unsigned 64-bit integer.
\<close>

datatype error = IndexError | OverflowError

text \<open>
  The board is a two-dimensional numpy array of small integers (0 empty, 1 the agent,
  2 the opponent), kept as the list of its rows. The info dictionary maps strings to
  booleans.
\<close>

type_synonym ndarray = "int list list"

type_synonym info = "string \<rightharpoonup> bool"

text \<open>
  The attributes of the object that \<^verbatim>\<open>reset\<close> and \<^verbatim>\<open>step\<close> read and write;
  \<open>done_flag\<close> is the attribute \<^verbatim>\<open>done\<close>. The code only ever assigns 1 or 2 to
  \<^verbatim>\<open>current_player\<close> and only 0, 1 or 2 to a cell, so the 8-bit cells never wrap and
  plain integers stand for them.
\<close>

record env =
  board :: ndarray
  current_player :: int
  done_flag :: bool

text \<open>What \<^verbatim>\<open>step\<close> returns: observation, reward, terminated, truncated, info.\<close>

type_synonym step_result = "ndarray \<times> real \<times> bool \<times> bool \<times> info"

subsection \<open>The numpy operations the class uses\<close>

text \<open>\<^verbatim>\<open>np.zeros((m, n), dtype=np.int8)\<close>\<close>

definition np_zeros :: "nat \<Rightarrow> nat \<Rightarrow> ndarray" where
  "np_zeros m n = replicate m (replicate n 0)"

text \<open>
  One Python integer index of a subscript against an axis of size \<open>n\<close>: an index from
  \<open>-n\<close> to \<open>-1\<close> counts from the end, and anything outside \<open>-n .. n-1\<close> raises. numpy's
  index type is the signed 64-bit integer: an index from \<open>2^63\<close> up to \<open>2^64 - 1\<close> becomes
  an unsigned 64-bit scalar whose conversion to the index type raises \<^verbatim>\<open>OverflowError\<close>;
  every other index out of range, also one that fits no 64-bit integer, raises
  \<^verbatim>\<open>IndexError\<close>. (An axis has fewer than \<open>2^63\<close> entries, so an index in range is never one
  of those.)
\<close>

definition np_index :: "int \<Rightarrow> nat \<Rightarrow> error + nat" where
  "np_index i n =
     (if 0 \<le> i \<and> i < int n then Inr (nat i)
      else if - int n \<le> i \<and> i < 0 then Inr (nat (i + int n))
      else if 2 ^ 63 \<le> i \<and> i < 2 ^ 64 then Inl OverflowError
      else Inl IndexError)"

text \<open>\<^verbatim>\<open>b[row, col]\<close>\<close>

definition getitem :: "ndarray \<Rightarrow> int \<Rightarrow> int \<Rightarrow> error + int" where
  "getitem b row col =
     (case np_index row (length b) of
        Inl e \<Rightarrow> Inl e
      | Inr r \<Rightarrow>
          (case np_index col (length (b ! r)) of
             Inl e \<Rightarrow> Inl e
           | Inr c \<Rightarrow> Inr (b ! r ! c)))"

text \<open>\<^verbatim>\<open>b[row, col] = v\<close>, returning the updated array.\<close>

definition setitem :: "ndarray \<Rightarrow> int \<Rightarrow> int \<Rightarrow> int \<Rightarrow> error + ndarray" where
  "setitem b row col v =
     (case np_index row (length b) of
        Inl e \<Rightarrow> Inl e
      | Inr r \<Rightarrow>
          (case np_index col (length (b ! r)) of
             Inl e \<Rightarrow> Inl e
           | Inr c \<Rightarrow> Inr (b[r := (b ! r)[c := v]])))"

text \<open>\<^verbatim>\<open>(b != 0).all()\<close>\<close>

definition all_nonzero :: "ndarray \<Rightarrow> bool" where
  "all_nonzero b = list_all (list_all (\<lambda>x. x \<noteq> 0)) b"

text \<open>\<^verbatim>\<open>np.argwhere(b == v)\<close>: the coordinates of the cells equal to \<open>v\<close>, in row-major order.\<close>

definition np_argwhere :: "ndarray \<Rightarrow> int \<Rightarrow> (int \<times> int) list" where
  "np_argwhere b v =
     concat (map (\<lambda>i. map (\<lambda>j. (int i, int j))
                          (filter (\<lambda>j. b ! i ! j = v) [0..<length (b ! i)]))
                 [0..<length b])"

text \<open>\<^verbatim>\<open>np.diag(b)\<close> and \<^verbatim>\<open>np.fliplr(b)\<close>\<close>

definition np_diag :: "ndarray \<Rightarrow> int list" where
  "np_diag b = map (\<lambda>i. b ! i ! i) [0..<min (length b) (length (hd b))]"

definition np_fliplr :: "ndarray \<Rightarrow> ndarray" where
  "np_fliplr b = map rev b"

text \<open>\<^verbatim>\<open>np.all(xs == player)\<close> on a one-dimensional slice.\<close>

definition np_all_eq :: "int list \<Rightarrow> int \<Rightarrow> bool" where
  "np_all_eq xs player = list_all (\<lambda>x. x = player) xs"

subsection \<open>The methods\<close>

text \<open>
  \<^verbatim>\<open>_is_win\<close>: the rows \<^verbatim>\<open>b[i, :]\<close> and the columns \<^verbatim>\<open>b[:, j]\<close> for \<open>i, j\<close> in
  \<^verbatim>\<open>range(3)\<close>, then the two diagonals.
\<close>

definition is_win :: "ndarray \<Rightarrow> int \<Rightarrow> bool" where
  "is_win b player =
     (list_ex (\<lambda>i. np_all_eq (b ! i) player) [0..<3]
      \<or> list_ex (\<lambda>j. np_all_eq (map (\<lambda>r. r ! j) b) player) [0..<3]
      \<or> (np_all_eq (np_diag b) player \<or> np_all_eq (np_diag (np_fliplr b)) player))"

text \<open>
  \<^verbatim>\<open>reset\<close> assigns the three attributes and returns a copy of the board with an empty info
  dictionary. (The call to the base class only seeds a generator that this class never
  reads.) A copy is the array's value at that moment, which is what a HOL value is.
\<close>

definition reset :: "env \<Rightarrow> env \<times> (ndarray \<times> info)" where
  "reset self =
     (let self1 = self\<lparr>board := np_zeros 3 3\<rparr>;
          self2 = self1\<lparr>current_player := 1\<rparr>;
          self3 = self2\<lparr>done_flag := False\<rparr>
      in (self3, (board self3, Map.empty)))"

text \<open>
  \<^verbatim>\<open>__init__\<close> sets the two space attributes, which no method reads, and calls \<^verbatim>\<open>reset\<close>,
  dropping what it returns. The argument is the freshly allocated object.
\<close>

definition init :: "env \<Rightarrow> env" where
  "init self = fst (reset self)"

text \<open>
  The test of line 36, \<^verbatim>\<open>self.done or self.board[row, col] != 0\<close>: the subscript is only
  evaluated when \<^verbatim>\<open>self.done\<close> is false.
\<close>

definition invalid_move :: "env \<Rightarrow> int \<Rightarrow> int \<Rightarrow> error + bool" where
  "invalid_move self row col =
     (if done_flag self then Inr True
      else (case getitem (board self) row col of
              Inl e \<Rightarrow> Inl e
            | Inr v \<Rightarrow> Inr (v \<noteq> 0)))"

text \<open>
  \<^verbatim>\<open>step\<close>. The global \<^verbatim>\<open>np.random.choice\<close> is a parameter: \<open>np_random_choice n\<close> is the
  number the call \<^verbatim>\<open>np.random.choice(n)\<close> draws, which numpy takes from \<open>0 .. n-1\<close>.
  \<^verbatim>\<open>divmod(action, 3)\<close> is floor division with a remainder in \<open>0 .. 2\<close>, as \<open>div\<close> and
  \<open>mod\<close> on \<open>int\<close> are.
\<close>

definition step :: "env \<Rightarrow> int \<Rightarrow> (nat \<Rightarrow> nat) \<Rightarrow> error + env \<times> step_result" where
  "step self action np_random_choice =
     (let (row, col) = (action div 3, action mod 3);
          reward = 0;
          info = Map.empty
      in
      case invalid_move self row col of
        Inl e \<Rightarrow> Inl e
      | Inr True \<Rightarrow>
          (let self1 = self\<lparr>done_flag := True\<rparr>;
               reward = - 1;
               info = info(''invalid_move'' \<mapsto> True)
           in Inr (self1, (board self1, reward, done_flag self1, False, info)))
      | Inr False \<Rightarrow>
          (case setitem (board self) row col (current_player self) of
             Inl e \<Rightarrow> Inl e
           | Inr b1 \<Rightarrow>
               (let self1 = self\<lparr>board := b1\<rparr> in
                if is_win (board self1) (current_player self1) then
                  (let self2 = self1\<lparr>done_flag := True\<rparr>;
                       reward = 1
                   in Inr (self2, (board self2, reward, done_flag self2, False, info)))
                else if all_nonzero (board self1) then
                  (let self2 = self1\<lparr>done_flag := True\<rparr>;
                       reward = 0
                   in Inr (self2, (board self2, reward, done_flag self2, False, info)))
                else
                  (let self2 = self1\<lparr>current_player :=
                                  (if current_player self1 = 1 then 2 else 1)\<rparr>
                   in
                   if current_player self2 = 2 then
                     (let empty = np_argwhere (board self2) 0 in
                      if length empty \<noteq> 0 then
                        (let idx = np_random_choice (length empty);
                             (opp_row, opp_col) = empty ! idx
                         in
                         case setitem (board self2) opp_row opp_col 2 of
                           Inl e \<Rightarrow> Inl e
                         | Inr b2 \<Rightarrow>
                             (let self3 = self2\<lparr>board := b2\<rparr> in
                              if is_win (board self3) 2 then
                                (let self4 = self3\<lparr>done_flag := True\<rparr>;
                                     reward = - 1
                                 in Inr (self4, (board self4, reward, done_flag self4, False, info)))
                              else if all_nonzero (board self3) then
                                (let self4 = self3\<lparr>done_flag := True\<rparr>;
                                     reward = 0
                                 in Inr (self4, (board self4, reward, done_flag self4, False, info)))
                              else
                                (let self4 = self3\<lparr>current_player := 1\<rparr>
                                 in Inr (self4, (board self4, reward, done_flag self4, False, info)))))
                      else
                        (let self3 = self2\<lparr>current_player := 1\<rparr>
                         in Inr (self3, (board self3, reward, done_flag self3, False, info))))
                   else Inr (self2, (board self2, reward, done_flag self2, False, info))))))"

subsection \<open>Well-formed inputs\<close>

text \<open>
  The board is a 3 by 3 array: \<^verbatim>\<open>reset\<close> creates it with that shape and assigning to a
  cell keeps the shape.
\<close>

definition board_ok :: "ndarray \<Rightarrow> bool" where
  "board_ok b = (length b = 3 \<and> list_all (\<lambda>r. length r = 3) b)"

text \<open>
  The contract of \<^verbatim>\<open>np.random.choice(n)\<close> for a positive integer \<open>n\<close>: the number drawn
  is below \<open>n\<close>. Every theorem about the opponent's reply holds for every such draw.
\<close>

definition choice_ok :: "(nat \<Rightarrow> nat) \<Rightarrow> bool" where
  "choice_ok np_random_choice = (\<forall>n. 0 < n \<longrightarrow> np_random_choice n < n)"

text \<open>Two generators for concrete runs: the one that always draws 0, and the one that
  always draws the last index.\<close>

definition draw_first :: "nat \<Rightarrow> nat" where
  "draw_first n = 0"

definition draw_last :: "nat \<Rightarrow> nat" where
  "draw_last n = n - 1"

subsection \<open>The win predicate as the specification words it\<close>

text \<open>
  True iff some row has all three cells equal to the player, or some column has, or the
  main diagonal (0,0)-(1,1)-(2,2) has, or the anti-diagonal (0,2)-(1,1)-(2,0) has.
\<close>

definition isWin_spec :: "ndarray \<Rightarrow> int \<Rightarrow> bool" where
  "isWin_spec b player =
     ((\<exists>i\<in>{0..<3}. \<forall>j\<in>{0..<3}. b ! i ! j = player)
      \<or> (\<exists>j\<in>{0..<3}. \<forall>i\<in>{0..<3}. b ! i ! j = player)
      \<or> (b ! 0 ! 0 = player \<and> b ! 1 ! 1 = player \<and> b ! 2 ! 2 = player)
      \<or> (b ! 0 ! 2 = player \<and> b ! 1 ! 1 = player \<and> b ! 2 ! 0 = player))"

subsection \<open>The state after reset\<close>

text \<open>The attributes as \<^verbatim>\<open>reset\<close> leaves them.\<close>

definition start :: env where
  "start = \<lparr>board = [[0, 0, 0], [0, 0, 0], [0, 0, 0]], current_player = 1, done_flag = False\<rparr>"

section \<open>Properties\<close>

subsection \<open>Boards and subscripts\<close>

lemma list3: "length xs = 3 \<Longrightarrow> \<exists>x y z. xs = [x, y, z]"
  by (cases xs; simp; (cases "tl xs"; simp; (cases "tl (tl xs)"; simp)))

lemma board_ok_cells:
  assumes "board_ok b"
  obtains a0 a1 a2 a3 a4 a5 a6 a7 a8 where "b = [[a0, a1, a2], [a3, a4, a5], [a6, a7, a8]]"
proof -
  from assms obtain x y z where b: "b = [x, y, z]"
    unfolding board_ok_def using list3 by blast
  with assms have "length x = 3" "length y = 3" "length z = 3"
    by (simp_all add: board_ok_def)
  then obtain a0 a1 a2 a3 a4 a5 a6 a7 a8
    where "x = [a0, a1, a2]" "y = [a3, a4, a5]" "z = [a6, a7, a8]"
    using list3 by metis
  with b that show thesis by simp
qed

lemma action_cases:
  assumes "0 \<le> (a::int)" "a \<le> 8"
  shows "a = 0 \<or> a = 1 \<or> a = 2 \<or> a = 3 \<or> a = 4 \<or> a = 5 \<or> a = 6 \<or> a = 7 \<or> a = 8"
  using assms by arith

lemma board_ok_nth: "board_ok b \<Longrightarrow> r < 3 \<Longrightarrow> length (b ! r) = 3"
  by (simp add: board_ok_def list_all_length)

lemma np_index_row: "0 \<le> a \<Longrightarrow> a \<le> 8 \<Longrightarrow> np_index (a div 3) 3 = Inr (nat (a div 3))"
  by (simp add: np_index_def) arith

lemma np_index_col: "np_index (a mod 3) 3 = Inr (nat (a mod 3))"
  by (simp add: np_index_def)

lemma row_lt: "0 \<le> a \<Longrightarrow> a \<le> 8 \<Longrightarrow> nat (a div 3) < 3"
  by arith

lemma col_lt: "nat ((a::int) mod 3) < 3"
  by arith

lemma getitem_ok:
  assumes "board_ok b" "0 \<le> a" "a \<le> 8"
  shows "getitem b (a div 3) (a mod 3) = Inr (b ! nat (a div 3) ! nat (a mod 3))"
proof -
  have "length b = 3" using assms(1) by (simp add: board_ok_def)
  moreover have "length (b ! nat (a div 3)) = 3"
    using assms by (simp add: board_ok_nth row_lt)
  ultimately show ?thesis
    using assms by (simp add: getitem_def np_index_row np_index_col)
qed

lemma setitem_ok:
  assumes "board_ok b" "0 \<le> a" "a \<le> 8"
  shows "setitem b (a div 3) (a mod 3) v
         = Inr (b[nat (a div 3) := (b ! nat (a div 3))[nat (a mod 3) := v]])"
proof -
  have "length b = 3" using assms(1) by (simp add: board_ok_def)
  moreover have "length (b ! nat (a div 3)) = 3"
    using assms by (simp add: board_ok_nth row_lt)
  ultimately show ?thesis
    using assms by (simp add: setitem_def np_index_row np_index_col)
qed

lemma board_ok_update:
  assumes "board_ok b"
  shows "board_ok (b[r := (b ! r)[c := v]])"
proof (cases "r < length b")
  case True
  with assms show ?thesis
    by (auto simp: board_ok_def list_all_length nth_list_update)
next
  case False
  then have "b[r := (b ! r)[c := v]] = b"
    by (simp add: list_update_beyond)
  with assms show ?thesis by simp
qed

lemma set_np_argwhere:
  "set (np_argwhere b v) = {(int i, int j) | i j. i < length b \<and> j < length (b ! i) \<and> b ! i ! j = v}"
  by (auto simp: np_argwhere_def)

lemma all_nonzero_iff:
  "all_nonzero b = (\<forall>i < length b. \<forall>j < length (b ! i). b ! i ! j \<noteq> 0)"
  by (simp add: all_nonzero_def list_all_length)

lemma np_argwhere_empty: "(np_argwhere b 0 = []) = all_nonzero b"
proof -
  have "(np_argwhere b 0 = []) = (set (np_argwhere b 0) = {})" by simp
  also have "\<dots> = all_nonzero b"
    unfolding set_np_argwhere all_nonzero_iff by auto
  finally show ?thesis .
qed

lemma np_argwhere_nth:
  assumes "k < length (np_argwhere b v)" "np_argwhere b v ! k = (orow, ocol)"
  shows "0 \<le> orow \<and> 0 \<le> ocol \<and> nat orow < length b \<and> nat ocol < length (b ! nat orow)
         \<and> b ! nat orow ! nat ocol = v"
proof -
  have "(orow, ocol) \<in> set (np_argwhere b v)"
    using assms by (metis nth_mem)
  then show ?thesis
    unfolding set_np_argwhere by auto
qed

lemma setitem_nonneg:
  assumes "0 \<le> row" "0 \<le> col" "nat row < length b" "nat col < length (b ! nat row)"
  shows "setitem b row col v = Inr (b[nat row := (b ! nat row)[nat col := v]])"
proof -
  have "row < int (length b)" "col < int (length (b ! nat row))"
    using assms by linarith+
  then show ?thesis
    using assms by (simp add: setitem_def np_index_def)
qed



subsection \<open>The win test and the full-board test, cell by cell\<close>

lemma upt3: "[0..<3] = [0, 1, 2]"
  by (simp add: upt_rec)

lemma set3: "{0..<3::nat} = {0, 1, 2}"
  by auto

lemma is_win_cells:
  "is_win [[a0, a1, a2], [a3, a4, a5], [a6, a7, a8]] p =
     ((a0 = p \<and> a1 = p \<and> a2 = p) \<or> (a3 = p \<and> a4 = p \<and> a5 = p) \<or> (a6 = p \<and> a7 = p \<and> a8 = p)
      \<or> (a0 = p \<and> a3 = p \<and> a6 = p) \<or> (a1 = p \<and> a4 = p \<and> a7 = p) \<or> (a2 = p \<and> a5 = p \<and> a8 = p)
      \<or> (a0 = p \<and> a4 = p \<and> a8 = p) \<or> (a2 = p \<and> a4 = p \<and> a6 = p))"
  by (simp add: is_win_def np_all_eq_def np_diag_def np_fliplr_def upt3)

lemma isWin_spec_cells:
  "isWin_spec [[a0, a1, a2], [a3, a4, a5], [a6, a7, a8]] p =
     ((a0 = p \<and> a1 = p \<and> a2 = p) \<or> (a3 = p \<and> a4 = p \<and> a5 = p) \<or> (a6 = p \<and> a7 = p \<and> a8 = p)
      \<or> (a0 = p \<and> a3 = p \<and> a6 = p) \<or> (a1 = p \<and> a4 = p \<and> a7 = p) \<or> (a2 = p \<and> a5 = p \<and> a8 = p)
      \<or> (a0 = p \<and> a4 = p \<and> a8 = p) \<or> (a2 = p \<and> a4 = p \<and> a6 = p))"
  by (simp add: isWin_spec_def set3)


subsection \<open>The branches of step\<close>

lemma invalid_move_legal:
  assumes "board_ok (board self)" "\<not> done_flag self" "0 \<le> action" "action \<le> 8"
    and "board self ! nat (action div 3) ! nat (action mod 3) = 0"
  shows "invalid_move self (action div 3) (action mod 3) = Inr False"
  using assms by (simp add: invalid_move_def getitem_ok)

lemma opponent_setitem:
  assumes "board_ok b1" "\<not> all_nonzero b1" "choice_ok np_random_choice"
    and "np_argwhere b1 0 ! np_random_choice (length (np_argwhere b1 0)) = (orow, ocol)"
  shows "setitem b1 orow ocol 2 = Inr (b1[nat orow := (b1 ! nat orow)[nat ocol := 2]])"
    and "nat orow < 3" and "nat ocol < 3" and "b1 ! nat orow ! nat ocol = 0"
proof -
  have ne: "0 < length (np_argwhere b1 0)"
    using assms(2) by (simp add: np_argwhere_empty [symmetric])
  then have "np_random_choice (length (np_argwhere b1 0)) < length (np_argwhere b1 0)"
    using assms(3) by (simp add: choice_ok_def)
  from np_argwhere_nth [OF this assms(4)]
  have *: "0 \<le> orow" "0 \<le> ocol" "nat orow < length b1" "nat ocol < length (b1 ! nat orow)"
    "b1 ! nat orow ! nat ocol = 0"
    by simp_all
  from * show "setitem b1 orow ocol 2 = Inr (b1[nat orow := (b1 ! nat orow)[nat ocol := 2]])"
    by (simp add: setitem_nonneg)
  from * assms(1) show "nat orow < 3"
    by (simp add: board_ok_def)
  then have "length (b1 ! nat orow) = 3"
    using assms(1) by (simp add: board_ok_nth)
  with * show "nat ocol < 3" by simp
  from * show "b1 ! nat orow ! nat ocol = 0" by simp
qed

lemma step_legal:
  assumes "board_ok (board self)" "\<not> done_flag self" "0 \<le> action" "action \<le> 8"
    and "r = nat (action div 3)" "c = nat (action mod 3)"
    and "board self ! r ! c = 0"
    and "choice_ok np_random_choice"
    and "b1 = (board self)[r := (board self ! r)[c := current_player self]]"
    and "np_argwhere b1 0 ! np_random_choice (length (np_argwhere b1 0)) = (orow, ocol)"
    and "b2 = b1[nat orow := (b1 ! nat orow)[nat ocol := 2]]"
  shows "step self action np_random_choice =
     (if is_win b1 (current_player self) then
        Inr (self\<lparr>board := b1, done_flag := True\<rparr>, (b1, 1, True, False, Map.empty))
      else if all_nonzero b1 then
        Inr (self\<lparr>board := b1, done_flag := True\<rparr>, (b1, 0, True, False, Map.empty))
      else if current_player self \<noteq> 1 then
        Inr (self\<lparr>board := b1, current_player := 1\<rparr>, (b1, 0, False, False, Map.empty))
      else if is_win b2 2 then
        Inr (self\<lparr>board := b2, current_player := 2, done_flag := True\<rparr>,
             (b2, - 1, True, False, Map.empty))
      else if all_nonzero b2 then
        Inr (self\<lparr>board := b2, current_player := 2, done_flag := True\<rparr>,
             (b2, 0, True, False, Map.empty))
      else
        Inr (self\<lparr>board := b2, current_player := 1\<rparr>, (b2, 0, False, False, Map.empty)))"
proof -
  have inv: "invalid_move self (action div 3) (action mod 3) = Inr False"
    using assms by (simp add: invalid_move_legal)
  have set1: "setitem (board self) (action div 3) (action mod 3) (current_player self) = Inr b1"
    using assms by (simp add: setitem_ok)
  have ok1: "board_ok b1"
    using assms(1,9) by (simp add: board_ok_update)
  show ?thesis
  proof (cases "is_win b1 (current_player self) \<or> all_nonzero b1 \<or> current_player self \<noteq> 1")
    case True
    then show ?thesis
      using assms(2) by (auto simp: step_def inv set1)
  next
    case False
    then have nf: "\<not> all_nonzero b1" by simp
    have ne: "np_argwhere b1 0 \<noteq> []"
      using nf by (simp add: np_argwhere_empty)
    have set2: "setitem b1 orow ocol 2 = Inr b2"
      using opponent_setitem(1) [OF ok1 nf assms(8) assms(10)] assms(11) by simp
    from False have cp: "current_player self = 1" by simp
    have set1': "setitem (board self) (action div 3) (action mod 3) 1 = Inr b1"
      using set1 cp by simp
    show ?thesis
      using False assms(2) by (simp add: step_def inv set1' ne assms(10) set2 cp)
  qed
qed


lemma nat_lt3: "(n::nat) < 3 \<Longrightarrow> n = 0 \<or> n = 1 \<or> n = 2"
  by arith

lemma all_nonzero_cells:
  "all_nonzero [[a0, a1, a2], [a3, a4, a5], [a6, a7, a8]] =
     (a0 \<noteq> 0 \<and> a1 \<noteq> 0 \<and> a2 \<noteq> 0 \<and> a3 \<noteq> 0 \<and> a4 \<noteq> 0 \<and> a5 \<noteq> 0 \<and> a6 \<noteq> 0 \<and> a7 \<noteq> 0 \<and> a8 \<noteq> 0)"
  by (simp add: all_nonzero_def)


lemma reset_start: "reset self = (start, ([[0, 0, 0], [0, 0, 0], [0, 0, 0]], Map.empty))"
  by (simp add: reset_def start_def np_zeros_def numeral_3_eq_3)

lemma first_step:
  assumes "0 \<le> action" "action \<le> 8" "choice_ok np_random_choice"
    and "r = nat (action div 3)" "c = nat (action mod 3)"
    and "b1 = (board start)[r := (board start ! r)[c := 1]]"
  shows "\<exists>opp_row opp_col. opp_row < 3 \<and> opp_col < 3 \<and> (opp_row, opp_col) \<noteq> (r, c)
           \<and> step start action np_random_choice
               = Inr (start\<lparr>board := b1[opp_row := (b1 ! opp_row)[opp_col := 2]],
                            current_player := 1\<rparr>,
                      (b1[opp_row := (b1 ! opp_row)[opp_col := 2]], 0, False, False, Map.empty))"
proof -
  obtain orow ocol
    where o: "np_argwhere b1 0 ! np_random_choice (length (np_argwhere b1 0)) = (orow, ocol)"
    by (cases "np_argwhere b1 0 ! np_random_choice (length (np_argwhere b1 0))") simp
  define b2 where "b2 = b1[nat orow := (b1 ! nat orow)[nat ocol := 2]]"
  have cp: "current_player start = 1" by (simp add: start_def)
  have b1: "b1 = (board start)[r := (board start ! r)[c := current_player start]]"
    using assms(6) cp by simp
  have ok0: "board_ok (board start)" by (simp add: start_def board_ok_def)
  have nd: "\<not> done_flag start" by (simp add: start_def)
  have e: "board start ! r ! c = 0"
    using action_cases [OF assms(1,2)] by (auto simp: assms(4,5) start_def)
  have a1: "\<not> is_win b1 1" "\<not> all_nonzero b1" "b1 ! r ! c = 1"
    using action_cases [OF assms(1,2)]
    by (auto simp: assms(4,5,6) start_def is_win_cells all_nonzero_cells)
  have ok1: "board_ok b1"
    unfolding assms(6) by (rule board_ok_update [OF ok0])
  have lt: "nat orow < 3" "nat ocol < 3" and z: "b1 ! nat orow ! nat ocol = 0"
    using opponent_setitem(2,3,4) [OF ok1 a1(2) assms(3) o] by simp_all
  have ne: "(nat orow, nat ocol) \<noteq> (r, c)"
    using z a1(3) by auto
  have a2: "\<not> is_win b2 2 \<and> \<not> all_nonzero b2"
    using action_cases [OF assms(1,2)] nat_lt3 [OF lt(1)] nat_lt3 [OF lt(2)]
    by (elim disjE; simp add: b2_def assms(4,5,6) start_def is_win_cells all_nonzero_cells)
  have "step start action np_random_choice
        = Inr (start\<lparr>board := b2, current_player := 1\<rparr>, (b2, 0, False, False, Map.empty))"
    unfolding step_legal [OF ok0 nd assms(1,2,4,5) e assms(3) b1 o b2_def]
    using a1 a2 cp by simp
  with lt ne show ?thesis
    unfolding b2_def by blast
qed

lemma step_agent_move:
  assumes "board_ok (board self)" "\<not> done_flag self" "0 \<le> action" "action \<le> 8"
    and "r = nat (action div 3)" "c = nat (action mod 3)"
    and "board self ! r ! c = 0"
    and "b1 = (board self)[r := (board self ! r)[c := current_player self]]"
    and "is_win b1 (current_player self) \<or> all_nonzero b1"
  shows "step self action np_random_choice =
     Inr (self\<lparr>board := b1, done_flag := True\<rparr>,
          (b1, if is_win b1 (current_player self) then 1 else 0, True, False, Map.empty))"
proof -
  have inv: "invalid_move self (action div 3) (action mod 3) = Inr False"
    using assms by (simp add: invalid_move_legal)
  have set1: "setitem (board self) (action div 3) (action mod 3) (current_player self) = Inr b1"
    using assms by (simp add: setitem_ok)
  show ?thesis
    using assms(9) by (auto simp: step_def inv set1)
qed


lemma step_continues:
  assumes "board_ok (board self)" "\<not> done_flag self" "current_player self = 1"
    and "0 \<le> action" "action \<le> 8"
    and "r = nat (action div 3)" "c = nat (action mod 3)"
    and "board self ! r ! c = 0"
    and "b1 = (board self)[r := (board self ! r)[c := 1]]"
    and "\<not> is_win b1 1" "\<not> all_nonzero b1"
    and "choice_ok np_random_choice"
    and "np_argwhere b1 0 ! np_random_choice (length (np_argwhere b1 0)) = (opp_row, opp_col)"
    and "b2 = b1[nat opp_row := (b1 ! nat opp_row)[nat opp_col := 2]]"
    and "\<not> is_win b2 2" "\<not> all_nonzero b2"
  shows "step self action np_random_choice
         = Inr (self\<lparr>board := b2, current_player := 1\<rparr>, (b2, 0, False, False, Map.empty))"
    and "nat opp_row < 3" and "nat opp_col < 3"
    and "board self ! nat opp_row ! nat opp_col = 0"
    and "(nat opp_row, nat opp_col) \<noteq> (r, c)"
    and "\<forall>i<3. \<forall>j<3. b2 ! i ! j =
           (if (i, j) = (r, c) then 1
            else if (i, j) = (nat opp_row, nat opp_col) then 2
            else board self ! i ! j)"
proof -
  have b1: "b1 = (board self)[r := (board self ! r)[c := current_player self]]"
    using assms(3,9) by simp
  have agent: "\<not> is_win b1 (current_player self)"
    using assms(3,10) by simp
  show "step self action np_random_choice
        = Inr (self\<lparr>board := b2, current_player := 1\<rparr>, (b2, 0, False, False, Map.empty))"
    unfolding step_legal [OF assms(1,2,4,5,6,7,8,12) b1 assms(13,14)]
    using agent assms(3,11,15,16) by simp
  have ok1: "board_ok b1"
    unfolding assms(9) by (rule board_ok_update [OF assms(1)])
  have rc: "r < 3" "c < 3"
    using assms(4,5) by (simp_all add: assms(6,7) row_lt col_lt)
  have len: "length (board self) = 3" "\<forall>i<3. length (board self ! i) = 3"
    using assms(1) by (simp_all add: board_ok_def board_ok_nth)
  have len1: "length b1 = 3" "\<forall>i<3. length (b1 ! i) = 3"
    using ok1 by (simp_all add: board_ok_def board_ok_nth)
  show lt: "nat opp_row < 3" "nat opp_col < 3"
    using opponent_setitem(2,3) [OF ok1 assms(11,12,13)] by simp_all
  have z: "b1 ! nat opp_row ! nat opp_col = 0"
    by (rule opponent_setitem(4) [OF ok1 assms(11,12,13)])
  have cell1: "\<forall>i<3. \<forall>j<3. b1 ! i ! j = (if (i, j) = (r, c) then 1 else board self ! i ! j)"
    using len rc by (simp add: assms(9) nth_list_update)
  have one: "b1 ! r ! c = 1"
    using cell1 rc by simp
  show ne: "(nat opp_row, nat opp_col) \<noteq> (r, c)"
    using z one by auto
  show "board self ! nat opp_row ! nat opp_col = 0"
    using cell1 lt z ne by (auto split: if_splits)
  have "\<forall>i<3. \<forall>j<3. b2 ! i ! j
          = (if (i, j) = (nat opp_row, nat opp_col) then 2 else b1 ! i ! j)"
    using len1 lt by (simp add: assms(14) nth_list_update)
  with cell1 ne show "\<forall>i<3. \<forall>j<3. b2 ! i ! j =
           (if (i, j) = (r, c) then 1
            else if (i, j) = (nat opp_row, nat opp_col) then 2
            else board self ! i ! j)"
    by auto
qed

lemma reset_step_0:
  assumes "choice_ok np_random_choice"
  shows "\<exists>self' obs. step (fst (reset self)) 0 np_random_choice
                         = Inr (self', (obs, 0, False, False, Map.empty))
           \<and> board self' = obs \<and> current_player self' = 1 \<and> \<not> done_flag self'
           \<and> obs ! 0 ! 0 = 1 \<and> count_list (concat obs) 2 = 1 \<and> count_list (concat obs) 0 = 7"
proof -
  define b1 where "b1 = (board start)[0 := (board start ! 0)[0 := 1]]"
  have b1: "b1 = (board start)[nat (0 div 3) := (board start ! nat (0 div 3))[nat (0 mod 3) := 1]]"
    by (simp add: b1_def)
  from first_step [OF _ _ assms refl refl b1]
  obtain opp_row opp_col
    where lt: "opp_row < 3" "opp_col < 3" and ne: "(opp_row, opp_col) \<noteq> (0, 0)"
      and st: "step start 0 np_random_choice
               = Inr (start\<lparr>board := b1[opp_row := (b1 ! opp_row)[opp_col := 2]],
                            current_player := 1\<rparr>,
                      (b1[opp_row := (b1 ! opp_row)[opp_col := 2]], 0, False, False, Map.empty))"
    by auto
  define b2 where "b2 = b1[opp_row := (b1 ! opp_row)[opp_col := 2]]"
  have "b2 ! 0 ! 0 = 1 \<and> count_list (concat b2) 2 = 1 \<and> count_list (concat b2) 0 = 7"
    using nat_lt3 [OF lt(1)] nat_lt3 [OF lt(2)] ne
    by (elim disjE; simp add: b2_def b1_def start_def)
  moreover have "\<not> done_flag start" by (simp add: start_def)
  ultimately show ?thesis
    using st by (simp add: reset_start b2_def)
qed

lemma step_invalid:
  assumes "invalid_move self (action div 3) (action mod 3) = Inr True"
  shows "step self action np_random_choice
         = Inr (self\<lparr>done_flag := True\<rparr>,
                (board self, - 1, True, False, [''invalid_move'' \<mapsto> True]))"
  using assms by (simp add: step_def)

lemma step_index_error:
  assumes "invalid_move self (action div 3) (action mod 3) = Inl e"
  shows "step self action np_random_choice = Inl e"
  using assms by (simp add: step_def)

lemma negative_action_div: "(action + 9) div 3 = action div 3 + (3::int)"
  by simp

lemma negative_action_mod: "(action + 9) mod 3 = action mod (3::int)"
  by presburger

lemma np_index_negative_row:
  assumes "- 9 \<le> action" "action \<le> - 1"
  shows "np_index (action div 3) 3 = np_index ((action + 9) div 3) 3"
proof -
  have "- 3 \<le> action div 3" "action div 3 < 0"
    using assms by arith+
  then show ?thesis
    by (simp add: negative_action_div np_index_def)
qed

lemma getitem_negative:
  assumes "length b = 3" "- 9 \<le> action" "action \<le> - 1"
  shows "getitem b (action div 3) (action mod 3)
         = getitem b ((action + 9) div 3) ((action + 9) mod 3)"
  unfolding getitem_def assms(1) np_index_negative_row [OF assms(2,3)] negative_action_mod ..

lemma setitem_negative:
  assumes "length b = 3" "- 9 \<le> action" "action \<le> - 1"
  shows "setitem b (action div 3) (action mod 3) v
         = setitem b ((action + 9) div 3) ((action + 9) mod 3) v"
  unfolding setitem_def assms(1) np_index_negative_row [OF assms(2,3)] negative_action_mod ..

lemma step_negative:
  assumes "board_ok (board self)" "- 9 \<le> action" "action \<le> - 1"
  shows "step self action np_random_choice = step self (action + 9) np_random_choice"
proof -
  have len: "length (board self) = 3"
    using assms(1) by (simp add: board_ok_def)
  have inv: "invalid_move self (action div 3) (action mod 3)
             = invalid_move self ((action + 9) div 3) ((action + 9) mod 3)"
    unfolding invalid_move_def getitem_negative [OF len assms(2,3)] ..
  have upd: "setitem (board self) (action div 3) (action mod 3) (current_player self)
             = setitem (board self) ((action + 9) div 3) ((action + 9) mod 3) (current_player self)"
    by (rule setitem_negative [OF len assms(2,3)])
  show ?thesis
    unfolding step_def Let_def prod.case inv upd ..
qed

lemma getitem_out_of_range:
  assumes "length b = 3" "action < - 9 \<or> 8 < action"
  shows "getitem b (action div 3) (action mod 3)
         = Inl (if 2 ^ 63 \<le> action div 3 \<and> action div 3 < 2 ^ 64
                then OverflowError else IndexError)"
proof -
  have "action div 3 < - 3 \<or> 3 \<le> action div 3"
    using assms(2) by arith
  then have "np_index (action div 3) 3
             = Inl (if 2 ^ 63 \<le> action div 3 \<and> action div 3 < 2 ^ 64
                    then OverflowError else IndexError)"
    unfolding np_index_def by auto
  then show ?thesis
    by (simp add: getitem_def assms(1))
qed

lemma if_Inr_ex: "(\<exists>res. (if P then Inr a else x) = Inr res) = (P \<or> (\<exists>res. x = Inr res))"
  by auto

lemma step_in_range:
  assumes "board_ok (board self)" "\<not> done_flag self" "0 \<le> action" "action \<le> 8"
    and "choice_ok np_random_choice"
  shows "\<exists>res. step self action np_random_choice = Inr res"
proof (cases "board self ! nat (action div 3) ! nat (action mod 3) = 0")
  case False
  then have "invalid_move self (action div 3) (action mod 3) = Inr True"
    using assms by (simp add: invalid_move_def getitem_ok)
  from step_invalid [OF this, of np_random_choice] show ?thesis by blast
next
  case True
  define b1 where "b1 = (board self)[nat (action div 3) :=
     (board self ! nat (action div 3))[nat (action mod 3) := current_player self]]"
  obtain orow ocol
    where o: "np_argwhere b1 0 ! np_random_choice (length (np_argwhere b1 0)) = (orow, ocol)"
    by (cases "np_argwhere b1 0 ! np_random_choice (length (np_argwhere b1 0))") simp
  show ?thesis
    unfolding step_legal [OF assms(1-4) refl refl True assms(5) b1_def o refl]
    by (simp only: if_Inr_ex) blast
qed

lemma step_out_of_range:
  assumes "board_ok (board self)" "\<not> done_flag self" "action < - 9 \<or> 8 < action"
  shows "step self action np_random_choice
         = Inl (if 2 ^ 63 \<le> action div 3 \<and> action div 3 < 2 ^ 64
                then OverflowError else IndexError)"
proof -
  have len: "length (board self) = 3"
    using assms(1) by (simp add: board_ok_def)
  have "invalid_move self (action div 3) (action mod 3)
        = Inl (if 2 ^ 63 \<le> action div 3 \<and> action div 3 < 2 ^ 64
               then OverflowError else IndexError)"
    using assms(2) by (simp add: invalid_move_def getitem_out_of_range [OF len assms(3)])
  then show ?thesis
    by (rule step_index_error)
qed

lemma step_returns:
  assumes "board_ok (board self)" "choice_ok np_random_choice"
    and "done_flag self \<or> (- 9 \<le> action \<and> action \<le> 8)"
  shows "\<exists>res. step self action np_random_choice = Inr res"
proof (cases "done_flag self")
  case True
  then have "invalid_move self (action div 3) (action mod 3) = Inr True"
    by (simp add: invalid_move_def)
  from step_invalid [OF this, of np_random_choice] show ?thesis by blast
next
  case nd: False
  with assms(3) consider (neg) "- 9 \<le> action" "action \<le> - 1" | (ok) "0 \<le> action" "action \<le> 8"
    by linarith
  then show ?thesis
  proof cases
    case ok
    from step_in_range [OF assms(1) nd ok assms(2)] show ?thesis .
  next
    case neg
    then have "0 \<le> action + 9" "action + 9 \<le> 8" by simp_all
    from step_in_range [OF assms(1) nd this assms(2)]
    show ?thesis
      unfolding step_negative [OF assms(1) neg] .
  qed
qed

subsection \<open>What every reachable state satisfies\<close>

text \<open>
  The board stays 3 by 3, and while the episode is not terminal the agent is to move:
  \<^verbatim>\<open>reset\<close> establishes this and every returning \<^verbatim>\<open>step\<close> keeps it. The theorems below
  assume no more of a state.
\<close>

lemma step_invariant_in_range:
  assumes "board_ok (board self)" "\<not> done_flag self" "current_player self = 1"
    and "0 \<le> action" "action \<le> 8" "choice_ok np_random_choice"
    and "step self action np_random_choice = Inr (self', res)"
  shows "board_ok (board self') \<and> (done_flag self' \<or> current_player self' = 1)"
proof (cases "board self ! nat (action div 3) ! nat (action mod 3) = 0")
  case False
  then have "invalid_move self (action div 3) (action mod 3) = Inr True"
    using assms by (simp add: invalid_move_def getitem_ok)
  from step_invalid [OF this, of np_random_choice] assms(7)
  have "self' = self\<lparr>done_flag := True\<rparr>" by simp
  with assms(1) show ?thesis by simp
next
  case True
  define b1 where "b1 = (board self)[nat (action div 3) :=
     (board self ! nat (action div 3))[nat (action mod 3) := current_player self]]"
  obtain orow ocol
    where o: "np_argwhere b1 0 ! np_random_choice (length (np_argwhere b1 0)) = (orow, ocol)"
    by (cases "np_argwhere b1 0 ! np_random_choice (length (np_argwhere b1 0))") simp
  define b2 where "b2 = b1[nat orow := (b1 ! nat orow)[nat ocol := 2]]"
  have ok1: "board_ok b1"
    unfolding b1_def by (rule board_ok_update [OF assms(1)])
  have ok2: "board_ok b2"
    unfolding b2_def by (rule board_ok_update [OF ok1])
  from assms(7) ok1 ok2 show ?thesis
    unfolding step_legal [OF assms(1,2,4,5) refl refl True assms(6) b1_def o b2_def]
    by (auto split: if_splits)
qed

lemma step_invariant:
  assumes "board_ok (board self)" "done_flag self \<or> current_player self = 1"
    and "choice_ok np_random_choice"
    and "step self action np_random_choice = Inr (self', res)"
  shows "board_ok (board self') \<and> (done_flag self' \<or> current_player self' = 1)"
proof (cases "done_flag self")
  case True
  then have "invalid_move self (action div 3) (action mod 3) = Inr True"
    by (simp add: invalid_move_def)
  from step_invalid [OF this, of np_random_choice] assms(4)
  have "self' = self\<lparr>done_flag := True\<rparr>" by simp
  with assms(1) show ?thesis by simp
next
  case nd: False
  with assms(2) have cp: "current_player self = 1" by simp
  have "- 9 \<le> action \<and> action \<le> 8"
  proof (rule ccontr)
    assume "\<not> (- 9 \<le> action \<and> action \<le> 8)"
    then have "action < - 9 \<or> 8 < action" by linarith
    from step_out_of_range [OF assms(1) nd this, of np_random_choice] assms(4)
    show False by simp
  qed
  then consider (neg) "- 9 \<le> action" "action \<le> - 1" | (ok) "0 \<le> action" "action \<le> 8"
    by linarith
  then show ?thesis
  proof cases
    case ok
    from step_invariant_in_range [OF assms(1) nd cp ok assms(3,4)] show ?thesis .
  next
    case neg
    then have r: "0 \<le> action + 9" "action + 9 \<le> 8" by simp_all
    have "step self (action + 9) np_random_choice = Inr (self', res)"
      using assms(4) unfolding step_negative [OF assms(1) neg] .
    from step_invariant_in_range [OF assms(1) nd cp r assms(3) this] show ?thesis .
  qed
qed

lemma reset_invariant:
  "board_ok (board (fst (reset self))) \<and> current_player (fst (reset self)) = 1
   \<and> \<not> done_flag (fst (reset self))"
  by (simp add: reset_start start_def board_ok_def)

section \<open>The claims\<close>

subsection \<open>Win detection\<close>

text \<open>
  C6. On every 3 by 3 board and for every player, \<^verbatim>\<open>_is_win\<close> is true if and only if some
  row, some column, the main diagonal or the anti-diagonal has all three cells equal to
  the player.
\<close>

theorem is_win_iff_spec:
  assumes "board_ok b"
  shows "is_win b player = isWin_spec b player"
proof -
  from assms obtain a0 a1 a2 a3 a4 a5 a6 a7 a8
    where "b = [[a0, a1, a2], [a3, a4, a5], [a6, a7, a8]]"
    by (rule board_ok_cells)
  then show ?thesis
    by (simp only: is_win_cells isWin_spec_cells)
qed

theorem is_win_iff_spec_witness:
  "board_ok [[1, 2, 0], [2, 1, 0], [0, 0, 1]]
   \<and> is_win [[1, 2, 0], [2, 1, 0], [0, 0, 1]] 1
   \<and> isWin_spec [[1, 2, 0], [2, 1, 0], [0, 0, 1]] 1"
  using is_win_iff_spec [of "[[1, 2, 0], [2, 1, 0], [0, 0, 1]]" 1]
  by (simp add: board_ok_def isWin_spec_def set3)

subsection \<open>The illegal-move branch\<close>

text \<open>
  C1. When the episode is already terminal (whatever the action), or when the action is
  in 0..8 and its cell is not empty, \<^verbatim>\<open>step\<close> returns terminated = true, reward = -1,
  truncated = false and an info dictionary with \<^verbatim>\<open>invalid_move\<close> set to true; the board
  is the one from before the call, in the object and in the observation.
\<close>

theorem step_illegal_move:
  assumes "done_flag self
           \<or> (0 \<le> action \<and> action \<le> 8 \<and> board_ok (board self)
              \<and> board self ! nat (action div 3) ! nat (action mod 3) \<noteq> 0)"
  shows "step self action np_random_choice
         = Inr (self\<lparr>done_flag := True\<rparr>,
                (board self, - 1, True, False, [''invalid_move'' \<mapsto> True]))"
proof -
  have "invalid_move self (action div 3) (action mod 3) = Inr True"
    using assms by (auto simp: invalid_move_def getitem_ok)
  then show ?thesis
    by (rule step_invalid)
qed

theorem step_illegal_move_witness:
  "board_ok [[1, 2, 0], [0, 0, 0], [0, 0, 0]]
   \<and> [[1, 2, 0], [0, 0, 0], [0, 0, 0]] ! nat (1 div 3) ! nat (1 mod 3) \<noteq> (0::int)
   \<and> step \<lparr>board = [[1, 2, 0], [0, 0, 0], [0, 0, 0]], current_player = 1, done_flag = False\<rparr>
          1 draw_first
       = Inr (\<lparr>board = [[1, 2, 0], [0, 0, 0], [0, 0, 0]], current_player = 1, done_flag = True\<rparr>,
              ([[1, 2, 0], [0, 0, 0], [0, 0, 0]], - 1, True, False, [''invalid_move'' \<mapsto> True]))
   \<and> step \<lparr>board = [[1, 2, 0], [0, 0, 0], [0, 0, 0]], current_player = 1, done_flag = True\<rparr>
          11 draw_first
       = Inr (\<lparr>board = [[1, 2, 0], [0, 0, 0], [0, 0, 0]], current_player = 1, done_flag = True\<rparr>,
              ([[1, 2, 0], [0, 0, 0], [0, 0, 0]], - 1, True, False, [''invalid_move'' \<mapsto> True]))"
  using step_illegal_move
          [of "\<lparr>board = [[1, 2, 0], [0, 0, 0], [0, 0, 0]], current_player = 1, done_flag = False\<rparr>"
              1 draw_first]
        step_illegal_move
          [of "\<lparr>board = [[1, 2, 0], [0, 0, 0], [0, 0, 0]], current_player = 1, done_flag = True\<rparr>"
              11 draw_first]
  by (simp add: board_ok_def)

subsection \<open>The agent's move ends the episode\<close>

text \<open>
  C3. On a non-terminal episode with the agent to move, for an action in 0..8 on an empty
  cell: when the agent's mark at the decoded cell gives the agent three in a row, \<^verbatim>\<open>step\<close>
  returns terminated = true and reward = +1, and the board afterwards is the prior board
  with that one mark added; the opponent does not move.
\<close>

theorem step_agent_wins:
  assumes "board_ok (board self)" "\<not> done_flag self" "current_player self = 1"
    and "0 \<le> action" "action \<le> 8"
    and "r = nat (action div 3)" "c = nat (action mod 3)"
    and "board self ! r ! c = 0"
    and "b1 = (board self)[r := (board self ! r)[c := 1]]"
    and "is_win b1 1"
  shows "step self action np_random_choice
         = Inr (self\<lparr>board := b1, done_flag := True\<rparr>, (b1, 1, True, False, Map.empty))"
  using step_agent_move [of self action r c b1 np_random_choice] assms by simp

theorem step_agent_wins_witness:
  "board_ok [[1, 1, 0], [2, 2, 0], [0, 0, 0]]
   \<and> [[1, 1, 0], [2, 2, 0], [0, 0, 0]] ! 0 ! 2 = (0::int)
   \<and> is_win [[1, 1, 1], [2, 2, 0], [0, 0, 0]] 1
   \<and> step \<lparr>board = [[1, 1, 0], [2, 2, 0], [0, 0, 0]], current_player = 1, done_flag = False\<rparr>
          2 draw_last
       = Inr (\<lparr>board = [[1, 1, 1], [2, 2, 0], [0, 0, 0]], current_player = 1, done_flag = True\<rparr>,
              ([[1, 1, 1], [2, 2, 0], [0, 0, 0]], 1, True, False, Map.empty))"
proof -
  let ?s = "\<lparr>board = [[1, 1, 0], [2, 2, 0], [0, 0, 0]], current_player = 1, done_flag = False\<rparr>"
  have h1: "board_ok (board ?s)" by (simp add: board_ok_def)
  have h2: "\<not> done_flag ?s" by simp
  have h3: "current_player ?s = 1" by simp
  have h4: "(0::int) \<le> 2" "(2::int) \<le> 8" by simp_all
  have h5: "(0::nat) = nat (2 div 3)" "(2::nat) = nat (2 mod 3)" by simp_all
  have h6: "board ?s ! 0 ! 2 = 0" by simp
  have h7: "[[1, 1, 1], [2, 2, 0], [0, 0, 0]] = (board ?s)[0 := (board ?s ! 0)[2 := 1]]" by simp
  have h8: "is_win [[1, 1, 1], [2, 2, 0], [0, 0, 0]] 1" by (simp add: is_win_cells)
  show ?thesis
    using step_agent_wins [OF h1 h2 h3 h4 h5 h6 h7 h8, of draw_last] h1 h6 h8 by simp
qed

subsection \<open>The opponent's reply ends the episode\<close>

text \<open>
  C4. On a non-terminal episode with the agent to move, for an action in 0..8 on an empty
  cell whose mark neither wins nor fills the board: whatever cell the generator draws
  among the empty ones, when the opponent's mark there gives the opponent three in a
  row, \<^verbatim>\<open>step\<close> returns terminated = true and reward = -1.
\<close>

theorem step_opponent_wins:
  assumes "board_ok (board self)" "\<not> done_flag self" "current_player self = 1"
    and "0 \<le> action" "action \<le> 8"
    and "r = nat (action div 3)" "c = nat (action mod 3)"
    and "board self ! r ! c = 0"
    and "b1 = (board self)[r := (board self ! r)[c := 1]]"
    and "\<not> is_win b1 1" "\<not> all_nonzero b1"
    and "choice_ok np_random_choice"
    and "np_argwhere b1 0 ! np_random_choice (length (np_argwhere b1 0)) = (opp_row, opp_col)"
    and "b2 = b1[nat opp_row := (b1 ! nat opp_row)[nat opp_col := 2]]"
    and "is_win b2 2"
  shows "step self action np_random_choice
         = Inr (self\<lparr>board := b2, current_player := 2, done_flag := True\<rparr>,
                (b2, - 1, True, False, Map.empty))"
proof -
  have b1: "b1 = (board self)[r := (board self ! r)[c := current_player self]]"
    using assms(3,9) by simp
  have agent: "\<not> is_win b1 (current_player self)"
    using assms(3,10) by simp
  show ?thesis
    unfolding step_legal [OF assms(1,2,4,5,6,7,8,12) b1 assms(13,14)]
    using agent assms(3,11,15) by simp
qed

theorem step_opponent_wins_witness:
  "board_ok [[2, 2, 0], [1, 1, 0], [0, 0, 0]]
   \<and> [[2, 2, 0], [1, 1, 0], [0, 0, 0]] ! 2 ! 2 = (0::int)
   \<and> \<not> is_win [[2, 2, 0], [1, 1, 0], [0, 0, 1]] 1
   \<and> \<not> all_nonzero [[2, 2, 0], [1, 1, 0], [0, 0, 1]]
   \<and> choice_ok draw_first
   \<and> np_argwhere [[2, 2, 0], [1, 1, 0], [0, 0, 1]] 0
        ! draw_first (length (np_argwhere [[2, 2, 0], [1, 1, 0], [0, 0, 1]] 0)) = (0, 2)
   \<and> is_win [[2, 2, 2], [1, 1, 0], [0, 0, 1]] 2
   \<and> step \<lparr>board = [[2, 2, 0], [1, 1, 0], [0, 0, 0]], current_player = 1, done_flag = False\<rparr>
          8 draw_first
       = Inr (\<lparr>board = [[2, 2, 2], [1, 1, 0], [0, 0, 1]], current_player = 2, done_flag = True\<rparr>,
              ([[2, 2, 2], [1, 1, 0], [0, 0, 1]], - 1, True, False, Map.empty))"
proof -
  let ?s = "\<lparr>board = [[2, 2, 0], [1, 1, 0], [0, 0, 0]], current_player = 1, done_flag = False\<rparr>"
  let ?b1 = "[[2, 2, 0], [1, 1, 0], [0, 0, 1 :: int]]"
  let ?b2 = "[[2, 2, 2], [1, 1, 0], [0, 0, 1 :: int]]"
  have h1: "board_ok (board ?s)" by (simp add: board_ok_def)
  have h2: "\<not> done_flag ?s" by simp
  have h3: "current_player ?s = 1" by simp
  have h4: "(0::int) \<le> 8" "(8::int) \<le> 8" by simp_all
  have h5: "(2::nat) = nat (8 div 3)" "(2::nat) = nat (8 mod 3)" by simp_all
  have h6: "board ?s ! 2 ! 2 = 0" by simp
  have h7: "?b1 = (board ?s)[2 := (board ?s ! 2)[2 := 1]]" by simp
  have h8: "\<not> is_win ?b1 1" "\<not> all_nonzero ?b1"
    by (simp_all add: is_win_cells all_nonzero_cells)
  have h9: "choice_ok draw_first" by (simp add: choice_ok_def draw_first_def)
  have h10: "np_argwhere ?b1 0 ! draw_first (length (np_argwhere ?b1 0)) = (0, 2)"
    by (simp add: np_argwhere_def draw_first_def upt3)
  have h11: "?b2 = ?b1[nat 0 := (?b1 ! nat 0)[nat 2 := 2]]" by simp
  have h12: "is_win ?b2 2" by (simp add: is_win_cells)
  show ?thesis
    using step_opponent_wins [OF h1 h2 h3 h4 h5 h6 h7 h8 h9 h10 h11 h12] h1 h6 h8 h9 h10 h12
    by simp
qed

subsection \<open>Draws\<close>



subsection \<open>The episode goes on\<close>

text \<open>
  C8. On a non-terminal episode with the agent to move, for an action in 0..8 on an empty
  cell: when the agent's mark neither wins nor fills the board and the opponent's reply,
  whatever the generator draws, neither wins nor fills it, \<^verbatim>\<open>step\<close> returns terminated =
  false, reward = 0 and an empty info dictionary; the board is the prior board with the
  agent's mark at the decoded cell and one opponent mark at another, previously empty
  cell, and the agent is to move again. In particular \<^verbatim>\<open>reset\<close> followed by \<^verbatim>\<open>step(0)\<close>
  gives, for every draw, the agent's mark at (0,0), exactly one opponent mark, seven
  empty cells, reward 0 and terminated = false.
\<close>

theorem step_ongoing:
  "(board_ok (board self) \<and> \<not> done_flag self \<and> current_player self = 1
    \<and> 0 \<le> action \<and> action \<le> 8
    \<and> r = nat (action div 3) \<and> c = nat (action mod 3)
    \<and> board self ! r ! c = 0
    \<and> b1 = (board self)[r := (board self ! r)[c := 1]]
    \<and> \<not> is_win b1 1 \<and> \<not> all_nonzero b1
    \<and> choice_ok np_random_choice
    \<and> np_argwhere b1 0 ! np_random_choice (length (np_argwhere b1 0)) = (opp_row, opp_col)
    \<and> b2 = b1[nat opp_row := (b1 ! nat opp_row)[nat opp_col := 2]]
    \<and> \<not> is_win b2 2 \<and> \<not> all_nonzero b2
    \<longrightarrow>
      step self action np_random_choice
        = Inr (self\<lparr>board := b2, current_player := 1\<rparr>, (b2, 0, False, False, Map.empty))
      \<and> nat opp_row < 3 \<and> nat opp_col < 3
      \<and> board self ! nat opp_row ! nat opp_col = 0
      \<and> (nat opp_row, nat opp_col) \<noteq> (r, c)
      \<and> (\<forall>i<3. \<forall>j<3. b2 ! i ! j =
            (if (i, j) = (r, c) then 1
             else if (i, j) = (nat opp_row, nat opp_col) then 2
             else board self ! i ! j)))
   \<and> (choice_ok np_random_choice \<longrightarrow>
        (\<exists>self' obs. step (fst (reset other)) 0 np_random_choice
                        = Inr (self', (obs, 0, False, False, Map.empty))
           \<and> board self' = obs \<and> current_player self' = 1 \<and> \<not> done_flag self'
           \<and> obs ! 0 ! 0 = 1
           \<and> count_list (concat obs) 2 = 1 \<and> count_list (concat obs) 0 = 7))"
proof (intro conjI impI)
  assume choice: "choice_ok np_random_choice"
  show "\<exists>self' obs. step (fst (reset other)) 0 np_random_choice
                        = Inr (self', (obs, 0, False, False, Map.empty))
           \<and> board self' = obs \<and> current_player self' = 1 \<and> \<not> done_flag self'
           \<and> obs ! 0 ! 0 = 1
           \<and> count_list (concat obs) 2 = 1 \<and> count_list (concat obs) 0 = 7"
    by (rule reset_step_0 [OF choice])
next
  assume a: "board_ok (board self) \<and> \<not> done_flag self \<and> current_player self = 1
    \<and> 0 \<le> action \<and> action \<le> 8
    \<and> r = nat (action div 3) \<and> c = nat (action mod 3)
    \<and> board self ! r ! c = 0
    \<and> b1 = (board self)[r := (board self ! r)[c := 1]]
    \<and> \<not> is_win b1 1 \<and> \<not> all_nonzero b1
    \<and> choice_ok np_random_choice
    \<and> np_argwhere b1 0 ! np_random_choice (length (np_argwhere b1 0)) = (opp_row, opp_col)
    \<and> b2 = b1[nat opp_row := (b1 ! nat opp_row)[nat opp_col := 2]]
    \<and> \<not> is_win b2 2 \<and> \<not> all_nonzero b2"
  then have h: "board_ok (board self)" "\<not> done_flag self" "current_player self = 1"
    "0 \<le> action" "action \<le> 8" "r = nat (action div 3)" "c = nat (action mod 3)"
    "board self ! r ! c = 0" "b1 = (board self)[r := (board self ! r)[c := 1]]"
    "\<not> is_win b1 1" "\<not> all_nonzero b1" "choice_ok np_random_choice"
    "np_argwhere b1 0 ! np_random_choice (length (np_argwhere b1 0)) = (opp_row, opp_col)"
    "b2 = b1[nat opp_row := (b1 ! nat opp_row)[nat opp_col := 2]]"
    "\<not> is_win b2 2" "\<not> all_nonzero b2"
    by blast+
  note res = step_continues [OF h]
  from res(1) show "step self action np_random_choice
        = Inr (self\<lparr>board := b2, current_player := 1\<rparr>, (b2, 0, False, False, Map.empty))" .
  from res(2) show "nat opp_row < 3" .
  from res(3) show "nat opp_col < 3" .
  from res(4) show "board self ! nat opp_row ! nat opp_col = 0" .
  from res(5) show "(nat opp_row, nat opp_col) \<noteq> (r, c)" .
  from res(6) show "\<forall>i<3. \<forall>j<3. b2 ! i ! j =
            (if (i, j) = (r, c) then 1
             else if (i, j) = (nat opp_row, nat opp_col) then 2
             else board self ! i ! j)" .
qed

theorem step_ongoing_witness:
  "board_ok [[1, 0, 0], [0, 2, 0], [0, 0, 0]]
   \<and> [[1, 0, 0], [0, 2, 0], [0, 0, 0]] ! 0 ! 2 = (0::int)
   \<and> \<not> is_win [[1, 0, 1], [0, 2, 0], [0, 0, 0]] 1
   \<and> \<not> all_nonzero [[1, 0, 1], [0, 2, 0], [0, 0, 0]]
   \<and> choice_ok draw_last
   \<and> np_argwhere [[1, 0, 1], [0, 2, 0], [0, 0, 0]] 0
        ! draw_last (length (np_argwhere [[1, 0, 1], [0, 2, 0], [0, 0, 0]] 0)) = (2, 2)
   \<and> \<not> is_win [[1, 0, 1], [0, 2, 0], [0, 0, 2]] 2
   \<and> \<not> all_nonzero [[1, 0, 1], [0, 2, 0], [0, 0, 2]]
   \<and> step \<lparr>board = [[1, 0, 0], [0, 2, 0], [0, 0, 0]], current_player = 1, done_flag = False\<rparr>
          2 draw_last
       = Inr (\<lparr>board = [[1, 0, 1], [0, 2, 0], [0, 0, 2]], current_player = 1, done_flag = False\<rparr>,
              ([[1, 0, 1], [0, 2, 0], [0, 0, 2]], 0, False, False, Map.empty))
   \<and> (\<exists>self' obs.
         step (fst (reset \<lparr>board = [[1, 0, 0], [0, 2, 0], [0, 0, 0]], current_player = 1,
                             done_flag = False\<rparr>))
              0 draw_last
           = Inr (self', (obs, 0, False, False, Map.empty))
         \<and> obs ! 0 ! 0 = 1 \<and> count_list (concat obs) 2 = 1)"
proof -
  let ?s = "\<lparr>board = [[1, 0, 0], [0, 2, 0], [0, 0, 0]], current_player = 1, done_flag = False\<rparr>"
  let ?b1 = "[[1, 0, 1], [0, 2, 0], [0, 0, 0 :: int]]"
  let ?b2 = "[[1, 0, 1], [0, 2, 0], [0, 0, 2 :: int]]"
  have h1: "board_ok (board ?s)" by (simp add: board_ok_def)
  have h2: "\<not> done_flag ?s" by simp
  have h3: "current_player ?s = 1" by simp
  have h4: "(0::int) \<le> 2" "(2::int) \<le> 8" by simp_all
  have h5: "(0::nat) = nat (2 div 3)" "(2::nat) = nat (2 mod 3)" by simp_all
  have h6: "board ?s ! 0 ! 2 = 0" by simp
  have h7: "?b1 = (board ?s)[0 := (board ?s ! 0)[2 := 1]]" by simp
  have h8: "\<not> is_win ?b1 1" "\<not> all_nonzero ?b1"
    by (simp_all add: is_win_cells all_nonzero_cells)
  have h9: "choice_ok draw_last" by (simp add: choice_ok_def draw_last_def)
  have h10: "np_argwhere ?b1 0 ! draw_last (length (np_argwhere ?b1 0)) = (2, 2)"
    by (simp add: np_argwhere_def draw_last_def upt3)
  have h11: "?b2 = ?b1[nat 2 := (?b1 ! nat 2)[nat 2 := 2]]" by simp
  have h12: "\<not> is_win ?b2 2" "\<not> all_nonzero ?b2"
    by (simp_all add: is_win_cells all_nonzero_cells)
  note post = step_ongoing [of ?s 2 0 2 ?b1 draw_last 2 2 ?b2 ?s]
  from post h1 h2 h3 h4 h5 h6 h7 h8 h9 h10 h11 h12
  have "step ?s 2 draw_last
        = Inr (?s\<lparr>board := ?b2, current_player := 1\<rparr>, (?b2, 0, False, False, Map.empty))"
    by blast
  then have run: "step ?s 2 draw_last
       = Inr (\<lparr>board = ?b2, current_player = 1, done_flag = False\<rparr>,
              (?b2, 0, False, False, Map.empty))"
    by simp
  from post h9
  have scenario: "\<exists>self' obs. step (fst (reset ?s)) 0 draw_last
                        = Inr (self', (obs, 0, False, False, Map.empty))
         \<and> obs ! 0 ! 0 = 1 \<and> count_list (concat obs) 2 = 1"
    by blast
  from h1 have "board_ok [[1, 0, 0], [0, 2, 0], [0, 0, 0]]" by simp
  moreover from h6 have "[[1, 0, 0], [0, 2, 0], [0, 0, 0]] ! 0 ! 2 = (0::int)" by simp
  ultimately show ?thesis
    using h8 h9 h10 h12 run scenario by blast
qed

subsection \<open>Exceptions\<close>

text \<open>
  C2, as amended. On a 3 by 3 board and for every draw of the generator, \<^verbatim>\<open>step\<close> raises
  exactly when the episode is not terminal and the action is below -9 or above 8: it
  raises \<^verbatim>\<open>OverflowError\<close> when the decoded row \<open>action div 3\<close> is from \<open>2^63\<close> up to
  \<open>2^64 - 1\<close>, and \<^verbatim>\<open>IndexError\<close> for every other such action. In every other case (the
  episode is terminal, or the action is from -9 to 8) it returns. On a terminal episode
  every action, in range or not, gets the illegal-move return: terminated, reward -1,
  \<^verbatim>\<open>invalid_move\<close> true, board unchanged.
\<close>

theorem step_raises_iff:
  assumes "board_ok (board self)" "choice_ok np_random_choice"
  shows "(step self action np_random_choice = Inl OverflowError)
           = (\<not> done_flag self \<and> 2 ^ 63 \<le> action div 3 \<and> action div 3 < 2 ^ 64)
         \<and> (step self action np_random_choice = Inl IndexError)
             = (\<not> done_flag self \<and> (action < - 9 \<or> 8 < action)
                \<and> \<not> (2 ^ 63 \<le> action div 3 \<and> action div 3 < 2 ^ 64))
         \<and> ((\<exists>res. step self action np_random_choice = Inr res)
              = (done_flag self \<or> (- 9 \<le> action \<and> action \<le> 8)))
         \<and> (done_flag self \<longrightarrow>
              step self action np_random_choice
                = Inr (self\<lparr>done_flag := True\<rparr>,
                       (board self, - 1, True, False, [''invalid_move'' \<mapsto> True])))"
proof -
  have big: "8 < action" if "2 ^ 63 \<le> action div 3"
  proof -
    have "(3::int) \<le> 2 ^ 63" by simp
    with that have "3 \<le> action div 3" by linarith
    then show ?thesis by arith
  qed
  have folded: "step self action np_random_choice
          = Inr (self\<lparr>done_flag := True\<rparr>,
                 (board self, - 1, True, False, [''invalid_move'' \<mapsto> True]))"
    if "done_flag self"
    by (rule step_invalid) (simp add: invalid_move_def that)
  show ?thesis
  proof (cases "done_flag self \<or> (- 9 \<le> action \<and> action \<le> 8)")
    case True
    have r: "\<exists>res. step self action np_random_choice = Inr res"
      by (rule step_returns [OF assms True])
    then have no: "step self action np_random_choice \<noteq> Inl OverflowError"
      "step self action np_random_choice \<noteq> Inl IndexError"
      by auto
    have n1: "\<not> (\<not> done_flag self \<and> 2 ^ 63 \<le> action div 3 \<and> action div 3 < 2 ^ 64)"
      using big True by force
    have n2: "\<not> (\<not> done_flag self \<and> (action < - 9 \<or> 8 < action)
                \<and> \<not> (2 ^ 63 \<le> action div 3 \<and> action div 3 < 2 ^ 64))"
      using True by auto
    from r no n1 n2 True folded show ?thesis by blast
  next
    case False
    then have nd: "\<not> done_flag self" and out: "action < - 9 \<or> 8 < action"
      by auto
    show ?thesis
      unfolding step_out_of_range [OF assms(1) nd out] using nd out big by auto
  qed
qed

theorem step_raises_iff_witness:
  "board_ok [[0, 0, 0], [0, 0, 0], [0, 0, 0]] \<and> choice_ok draw_first
   \<and> step \<lparr>board = [[0, 0, 0], [0, 0, 0], [0, 0, 0]], current_player = 1, done_flag = False\<rparr>
          (- 10) draw_first = Inl IndexError
   \<and> step \<lparr>board = [[0, 0, 0], [0, 0, 0], [0, 0, 0]], current_player = 1, done_flag = False\<rparr>
          (3 * 2 ^ 63) draw_first = Inl OverflowError
   \<and> step \<lparr>board = [[0, 0, 0], [0, 0, 0], [0, 0, 0]], current_player = 1, done_flag = True\<rparr>
          (- 10) draw_first
       = Inr (\<lparr>board = [[0, 0, 0], [0, 0, 0], [0, 0, 0]], current_player = 1, done_flag = True\<rparr>,
              ([[0, 0, 0], [0, 0, 0], [0, 0, 0]], - 1, True, False, [''invalid_move'' \<mapsto> True]))"
proof -
  let ?s = "\<lparr>board = [[0, 0, 0], [0, 0, 0], [0, 0, 0]], current_player = 1, done_flag = False\<rparr>"
  let ?t = "\<lparr>board = [[0, 0, 0], [0, 0, 0], [0, 0, 0]], current_player = 1, done_flag = True\<rparr>"
  have h1: "board_ok (board ?s)" "board_ok (board ?t)" by (simp_all add: board_ok_def)
  have h2: "choice_ok draw_first" by (simp add: choice_ok_def draw_first_def)
  have a: "step ?s (- 10) draw_first = Inl IndexError"
    using step_raises_iff [OF h1(1) h2, of "- 10"] by simp
  have b: "step ?s (3 * 2 ^ 63) draw_first = Inl OverflowError"
    using step_raises_iff [OF h1(1) h2, of "3 * 2 ^ 63"] by simp
  have c: "step ?t (- 10) draw_first
           = Inr (?t\<lparr>done_flag := True\<rparr>,
                  (board ?t, - 1, True, False, [''invalid_move'' \<mapsto> True]))"
    using step_raises_iff [OF h1(2) h2, of "- 10"] by simp
  from h1 h2 a b c show ?thesis by simp
qed

text \<open>
  C2 as stated fails: on the board that \<^verbatim>\<open>reset\<close> leaves, action 9 decodes to row 3, and
  the subscript of line 36 raises \<^verbatim>\<open>IndexError\<close>.
\<close>

theorem step_action_9_raises:
  "step \<lparr>board = [[0, 0, 0], [0, 0, 0], [0, 0, 0]], current_player = 1, done_flag = False\<rparr>
        9 draw_first = Inl IndexError"
  by (simp add: step_def invalid_move_def getitem_def np_index_def)

subsection \<open>Negative actions\<close>

text \<open>
  C9. For every action from -9 to -1 on a 3 by 3 board, \<^verbatim>\<open>step\<close> does exactly what it does
  on the action plus 9 (on a terminal episode too): \<^verbatim>\<open>divmod\<close> gives a row from -3 to -1,
  which the subscript counts from the end. On a non-terminal episode such an action never
  raises.
\<close>

theorem step_negative_action:
  assumes "board_ok (board self)" "- 9 \<le> action" "action \<le> - 1"
  shows "step self action np_random_choice = step self (action + 9) np_random_choice
         \<and> (\<not> done_flag self \<and> choice_ok np_random_choice
              \<longrightarrow> (\<exists>res. step self action np_random_choice = Inr res))"
proof -
  have eq: "step self action np_random_choice = step self (action + 9) np_random_choice"
    by (rule step_negative [OF assms])
  have "\<exists>res. step self (action + 9) np_random_choice = Inr res"
    if "\<not> done_flag self" "choice_ok np_random_choice"
    using assms(2,3) by (intro step_in_range [OF assms(1) that(1) _ _ that(2)]) simp_all
  with eq show ?thesis by simp
qed

theorem step_negative_action_witness:
  "board_ok [[0, 0, 0], [0, 0, 0], [0, 0, 0]]
   \<and> step \<lparr>board = [[0, 0, 0], [0, 0, 0], [0, 0, 0]], current_player = 1, done_flag = False\<rparr>
          (- 1) draw_first
       = Inr (\<lparr>board = [[2, 0, 0], [0, 0, 0], [0, 0, 1]], current_player = 1, done_flag = False\<rparr>,
              ([[2, 0, 0], [0, 0, 0], [0, 0, 1]], 0, False, False, Map.empty))"
proof -
  let ?s = "\<lparr>board = [[0, 0, 0], [0, 0, 0], [0, 0, 0]], current_player = 1, done_flag = False\<rparr>"
  have h1: "board_ok (board ?s)" by (simp add: board_ok_def)
  have h2: "- 9 \<le> (- 1 :: int)" "(- 1 :: int) \<le> - 1" by simp_all
  have run: "step ?s (- 1 + 9) draw_first
       = Inr (\<lparr>board = [[2, 0, 0], [0, 0, 0], [0, 0, 1]], current_player = 1, done_flag = False\<rparr>,
              ([[2, 0, 0], [0, 0, 0], [0, 0, 1]], 0, False, False, Map.empty))"
    by (simp add: step_def invalid_move_def getitem_def setitem_def np_index_def is_win_cells
          all_nonzero_cells np_argwhere_def upt3 draw_first_def)
  show ?thesis
    using step_negative_action [OF h1 h2, of draw_first] run h1 by simp
qed

subsection \<open>Reset and construction\<close>

text \<open>
  C7. From any state, \<^verbatim>\<open>reset\<close> leaves an all-empty board, the agent to move and the
  terminal flag false, and returns the empty board with an empty info dictionary. Right
  after it, for every action in 0..8 the test of the illegal-move branch is false, and
  \<^verbatim>\<open>step\<close> returns with an empty info dictionary (reward 0, not terminated) for every
  draw of the generator.
\<close>

theorem reset_post:
  "reset self
     = (\<lparr>board = [[0, 0, 0], [0, 0, 0], [0, 0, 0]], current_player = 1, done_flag = False\<rparr>,
        ([[0, 0, 0], [0, 0, 0], [0, 0, 0]], Map.empty))
   \<and> (0 \<le> action \<and> action \<le> 8 \<longrightarrow>
        invalid_move (fst (reset self)) (action div 3) (action mod 3) = Inr False
        \<and> (choice_ok np_random_choice \<longrightarrow>
             (\<exists>self' obs. step (fst (reset self)) action np_random_choice
                             = Inr (self', (obs, 0, False, False, Map.empty)))))"
proof -
  have r: "reset self = (start, ([[0, 0, 0], [0, 0, 0], [0, 0, 0]], Map.empty))"
    by (rule reset_start)
  have inv: "invalid_move start (action div 3) (action mod 3) = Inr False"
    if "0 \<le> action" "action \<le> 8"
    using action_cases [OF that] that
    by (intro invalid_move_legal) (auto simp: start_def board_ok_def)
  have st: "\<exists>self' obs. step start action np_random_choice
                           = Inr (self', (obs, 0, False, False, Map.empty))"
    if "0 \<le> action" "action \<le> 8" "choice_ok np_random_choice"
    using first_step [OF that refl refl refl] by blast
  from inv st show ?thesis
    unfolding r by (simp add: start_def)
qed

theorem reset_post_witness:
  "reset \<lparr>board = [[1, 1, 1], [2, 2, 0], [0, 0, 0]], current_player = 1, done_flag = True\<rparr>
     = (\<lparr>board = [[0, 0, 0], [0, 0, 0], [0, 0, 0]], current_player = 1, done_flag = False\<rparr>,
        ([[0, 0, 0], [0, 0, 0], [0, 0, 0]], Map.empty))
   \<and> choice_ok draw_last
   \<and> invalid_move
         (fst (reset \<lparr>board = [[1, 1, 1], [2, 2, 0], [0, 0, 0]], current_player = 1,
                        done_flag = True\<rparr>))
         (4 div 3) (4 mod 3) = Inr False
   \<and> (\<exists>self' obs.
         step (fst (reset \<lparr>board = [[1, 1, 1], [2, 2, 0], [0, 0, 0]], current_player = 1,
                             done_flag = True\<rparr>))
              4 draw_last
           = Inr (self', (obs, 0, False, False, Map.empty)))"
proof -
  let ?s = "\<lparr>board = [[1, 1, 1], [2, 2, 0], [0, 0, 0]], current_player = 1, done_flag = True\<rparr>"
  have h: "choice_ok draw_last" by (simp add: choice_ok_def draw_last_def)
  have a: "(0::int) \<le> 4 \<and> (4::int) \<le> 8" by simp
  note post = reset_post [of ?s 4 draw_last]
  from post have "reset ?s
     = (\<lparr>board = [[0, 0, 0], [0, 0, 0], [0, 0, 0]], current_player = 1, done_flag = False\<rparr>,
        ([[0, 0, 0], [0, 0, 0], [0, 0, 0]], Map.empty))"
    by (rule conjunct1)
  moreover from post a have "invalid_move (fst (reset ?s)) (4 div 3) (4 mod 3) = Inr False"
    by blast
  moreover from post a h have "\<exists>self' obs. step (fst (reset ?s)) 4 draw_last
                                 = Inr (self', (obs, 0, False, False, Map.empty))"
    by blast
  ultimately show ?thesis
    using h by blast
qed

text \<open>
  C10. A newly constructed environment is in the state \<^verbatim>\<open>reset\<close> leaves, whatever the
  allocated object held: all-empty board, the agent to move, terminal flag false. So
  \<^verbatim>\<open>step\<close> can be called on it before any call of \<^verbatim>\<open>reset\<close>: for every action in 0..8 and
  every draw of the generator it returns with reward 0, not terminated, and an empty info
  dictionary.
\<close>

theorem init_post:
  "init self
     = \<lparr>board = [[0, 0, 0], [0, 0, 0], [0, 0, 0]], current_player = 1, done_flag = False\<rparr>
   \<and> init self = fst (reset other)
   \<and> (0 \<le> action \<and> action \<le> 8 \<and> choice_ok np_random_choice \<longrightarrow>
        (\<exists>self' obs. step (init self) action np_random_choice
                        = Inr (self', (obs, 0, False, False, Map.empty))))"
proof -
  have i: "init self = start"
    by (simp add: init_def reset_start)
  have st: "\<exists>self' obs. step start action np_random_choice
                           = Inr (self', (obs, 0, False, False, Map.empty))"
    if "0 \<le> action" "action \<le> 8" "choice_ok np_random_choice"
    using first_step [OF that refl refl refl] by blast
  from st show ?thesis
    unfolding i by (simp add: reset_start) (simp add: start_def)
qed

theorem init_post_witness:
  "init \<lparr>board = [], current_player = 0, done_flag = True\<rparr>
     = \<lparr>board = [[0, 0, 0], [0, 0, 0], [0, 0, 0]], current_player = 1, done_flag = False\<rparr>
   \<and> choice_ok draw_first
   \<and> (\<exists>self' obs. step (init \<lparr>board = [], current_player = 0, done_flag = True\<rparr>) 0 draw_first
                      = Inr (self', (obs, 0, False, False, Map.empty)))"
proof -
  let ?s = "\<lparr>board = [], current_player = 0, done_flag = True\<rparr>"
  have h: "choice_ok draw_first" by (simp add: choice_ok_def draw_first_def)
  have a: "(0::int) \<le> 0 \<and> (0::int) \<le> 8" by simp
  note post = init_post [of ?s ?s 0 draw_first]
  from post have "init ?s
     = \<lparr>board = [[0, 0, 0], [0, 0, 0], [0, 0, 0]], current_player = 1, done_flag = False\<rparr>"
    by (rule conjunct1)
  moreover from post a h have "\<exists>self' obs. step (init ?s) 0 draw_first
                                 = Inr (self', (obs, 0, False, False, Map.empty))"
    by blast
  ultimately show ?thesis
    using h by blast
qed

end
